theory Spec2Isabelle
  imports Main "HOL-Library.Char_ord" "HOL-Library.List_Lexorder" "HOL-Library.Multiset"
begin

section \<open>Strings and paths\<close>

text \<open>
  Python strings are modelled as \<^typ>\<open>string\<close>, read as the UTF-8 bytes of the text. All
  separators the scripts look for (\<open>.\<close>, \<open>/\<close>, \<open>_\<close>, \<open>&\<close>) are ASCII, and the byte-wise
  lexicographic order of UTF-8 is the code-point order that Python's \<open>sorted\<close> uses on
  \<open>str\<close>, so \<^const>\<open>sort\<close> on \<^typ>\<open>string\<close> (characters ordered by their code) is
  \<open>sorted\<close>.
\<close>

text \<open>\<open>s.split(c)\<close> for a one-character separator: never empty, \<open>''.split('.') = ['']\<close>.\<close>

fun split_on :: "char \<Rightarrow> string \<Rightarrow> string list" where
  "split_on c [] = [[]]"
| "split_on c (x # xs) =
     (if x = c then [] # split_on c xs
      else (case split_on c xs of
              [] \<Rightarrow> [[x]]
            | w # ws \<Rightarrow> (x # w) # ws))"

text \<open>\<open>s.startswith(p)\<close>.\<close>

fun startswith :: "string \<Rightarrow> string \<Rightarrow> bool" where
  "startswith s [] = True"
| "startswith [] (p # ps) = False"
| "startswith (x # xs) (p # ps) = (x = p \<and> startswith xs ps)"

text \<open>\<open>s.rfind(c)\<close>: the last index of \<open>c\<close>; Python's \<open>-1\<close> is \<open>None\<close>.\<close>

fun rfind :: "char \<Rightarrow> string \<Rightarrow> nat option" where
  "rfind c [] = None"
| "rfind c (x # xs) =
     (case rfind c xs of
        Some i \<Rightarrow> Some (Suc i)
      | None \<Rightarrow> if x = c then Some 0 else None)"

text \<open>
  \<open>pathlib\<close>: the \<open>name\<close> of a POSIX path is its last component, empty and \<open>.\<close>
  components being dropped when the path is parsed; the \<open>stem\<close> of a name cuts the last
  suffix, \<open>name[:i]\<close> for \<open>i = name.rfind('.')\<close> when \<open>0 < i < len(name) - 1\<close>.
\<close>

definition path_name :: "string \<Rightarrow> string" where
  "path_name p =
     (case filter (\<lambda>c. c \<noteq> [] \<and> c \<noteq> ''.'') (split_on CHR ''/'' p) of
        [] \<Rightarrow> []
      | c # cs \<Rightarrow> last (c # cs))"

definition name_stem :: "string \<Rightarrow> string" where
  "name_stem name =
     (case rfind CHR ''.'' name of
        None \<Rightarrow> name
      | Some i \<Rightarrow> if 0 < i \<and> int i < int (length name) - 1 then take i name else name)"

definition stem :: "string \<Rightarrow> string" where
  "stem p = name_stem (path_name p)"

section \<open>The module tree (\<open>organize_modules.py\<close>, \<open>build_api_docs.py\<close>)\<close>

text \<open>
  A node is the dictionary \<open>{"pages": [...], "submodules": defaultdict(new_module_dict)}\<close>.
  The submodules are kept as an association list in insertion order, as a Python
  dictionary keeps them.
\<close>

datatype tree = Node (pages: "string list") (submodules: "(string \<times> tree) list")

definition new_module_dict :: tree where
  "new_module_dict = Node [] []"

text \<open>
  \<open>current["submodules"][part]\<close> on the \<open>defaultdict\<close>, followed by a change \<open>f\<close> of the
  node reached: an existing entry is changed in place, a missing one is created at the
  end.
\<close>

fun update_sub :: "string \<Rightarrow> (tree \<Rightarrow> tree) \<Rightarrow> (string \<times> tree) list \<Rightarrow> (string \<times> tree) list" where
  "update_sub k f [] = [(k, f new_module_dict)]"
| "update_sub k f ((k', t) # rest) =
     (if k' = k then (k', f t) # rest else (k', t) # update_sub k f rest)"

text \<open>
  The walk \<open>current = current["submodules"][part]\<close> along \<open>path\<close>, then
  \<open>current["pages"].insert(0, reference_path)\<close> when \<open>front\<close>, else
  \<open>current["pages"].append(reference_path)\<close>.
\<close>

fun insert_page :: "string list \<Rightarrow> bool \<Rightarrow> string \<Rightarrow> tree \<Rightarrow> tree" where
  "insert_page [] front r (Node ps subs) =
     Node (if front then r # ps else ps @ [r]) subs"
| "insert_page (k # ks) front r (Node ps subs) =
     Node ps (update_sub k (insert_page ks front r) subs)"

text \<open>One iteration of the loop of \<open>build_module_tree\<close>, for a file of the given path.\<close>

definition add_file :: "string \<Rightarrow> tree \<Rightarrow> tree" where
  "add_file file module_tree =
     (let module_path = stem file in
      if \<not> startswith module_path ''camel.'' then module_tree
      else
        let parts = split_on CHR ''.'' module_path;
            reference_path = ''reference/'' @ module_path
        in if length parts = 1
           then Node (pages module_tree @ [reference_path]) (submodules module_tree)
           else insert_page (tl (butlast parts))
                  (parts ! (length parts - 1) = parts ! (length parts - 2))
                  reference_path module_tree)"

definition build_module_tree :: "string list \<Rightarrow> tree" where
  "build_module_tree mdx_files = fold add_file mdx_files new_module_dict"

section \<open>JSON values\<close>

text \<open>
  What \<open>json.load\<close> returns and \<open>json.dump\<close> takes: \<open>None\<close>, \<open>bool\<close>, \<open>int\<close>,
  \<open>float\<close>, \<open>str\<close>, \<open>list\<close> and \<open>dict\<close>. A dictionary is an association list in
  insertion order (the key order of the document). A float is carried by the text
  \<open>json.dump\<close> writes for it (\<open>1.5\<close>, \<open>1e+100\<close>, \<open>NaN\<close>); the scripts only ever test
  it for truth.
\<close>

datatype json =
    JNull
  | JBool bool
  | JInt int
  | JFloat string
  | JStr string
  | JArr "json list"
  | JObj "(string \<times> json) list"

datatype py_error = AttributeError | TypeError | KeyError

section \<open>Display names and category order\<close>

definition MODULE_NAME_DISPLAY :: "(string \<times> string) list" where
  "MODULE_NAME_DISPLAY =
    [(''agents'', ''Agents''), (''configs'', ''Configs''), (''datagen'', ''Data Generation''),
     (''datasets'', ''Datasets''), (''data_collector'', ''Data Collector''),
     (''embeddings'', ''Embeddings''), (''environments'', ''Environments''),
     (''interpreters'', ''Interpreters''), (''loaders'', ''Loaders''), (''memories'', ''Memory''),
     (''messages'', ''Messages''), (''models'', ''Models''), (''prompts'', ''Prompts''),
     (''responses'', ''Responses''), (''retrievers'', ''Retrievers''), (''runtime'', ''Runtime''),
     (''schemas'', ''Schemas''), (''societies'', ''Societies''), (''storages'', ''Storage''),
     (''tasks'', ''Tasks''), (''terminators'', ''Terminators''), (''toolkits'', ''Toolkits''),
     (''types'', ''Types''), (''utils'', ''Utilities''), (''verifiers'', ''Verifiers''),
     (''benchmarks'', ''Benchmarks''), (''bots'', ''Bots''), (''personas'', ''Personas''),
     (''extractors'', ''Extractors'')]"

text \<open>\<open>MODULE_ORDER\<close> of \<open>organize_modules.py\<close>.\<close>

definition MODULE_ORDER :: "string list" where
  "MODULE_ORDER =
    [''camel'', ''agents'', ''configs'', ''datagen'', ''datasets'', ''embeddings'', ''models'',
     ''interpreters'', ''memories'', ''messages'', ''prompts'', ''responses'', ''retrievers'',
     ''societies'', ''storages'', ''tasks'', ''terminators'', ''toolkits'', ''types'',
     ''verifiers'', ''bots'', ''runtime'', ''utils'', ''environments'', ''extractors'',
     ''personas'']"

text \<open>\<open>MODULE_ORDER\<close> of \<open>build_api_docs.py\<close>: the same list without \<open>camel\<close>.\<close>

definition MODULE_ORDER_build :: "string list" where
  "MODULE_ORDER_build =
    [''agents'', ''configs'', ''datagen'', ''datasets'', ''embeddings'', ''models'',
     ''interpreters'', ''memories'', ''messages'', ''prompts'', ''responses'', ''retrievers'',
     ''societies'', ''storages'', ''tasks'', ''terminators'', ''toolkits'', ''types'',
     ''verifiers'', ''bots'', ''runtime'', ''utils'', ''environments'', ''extractors'',
     ''personas'']"

text \<open>
  \<open>s.replace(old, new)\<close>: the occurrences of \<open>old\<close> are replaced from left to right,
  without overlap; an empty \<open>old\<close> matches before every character and at the end.
\<close>

function replace_str :: "string \<Rightarrow> string \<Rightarrow> string \<Rightarrow> string" where
  "replace_str [] old new = (if old = [] then new else [])"
| "replace_str (c # cs) old new =
     (if old = [] then new @ c # replace_str cs old new
      else if startswith (c # cs) old
           then new @ replace_str (drop (length old) (c # cs)) old new
           else c # replace_str cs old new)"
  by pat_completeness auto
termination
  by (relation "measure (\<lambda>(s, old, new). length s)") auto

text \<open>
  \<open>s.title()\<close> on ASCII text: a letter that follows a letter is lowered, any other
  letter is raised. Bytes outside ASCII are passed through as uncased; the function is
  only reached for names missing from \<^const>\<open>MODULE_NAME_DISPLAY\<close>.
\<close>

definition is_lower :: "char \<Rightarrow> bool" where
  "is_lower c = (CHR ''a'' \<le> c \<and> c \<le> CHR ''z'')"

definition is_upper :: "char \<Rightarrow> bool" where
  "is_upper c = (CHR ''A'' \<le> c \<and> c \<le> CHR ''Z'')"

definition to_upper :: "char \<Rightarrow> char" where
  "to_upper c = (if is_lower c then char_of (of_char c - (32::nat)) else c)"

definition to_lower :: "char \<Rightarrow> char" where
  "to_lower c = (if is_upper c then char_of (of_char c + (32::nat)) else c)"

fun title_from :: "bool \<Rightarrow> string \<Rightarrow> string" where
  "title_from previous_is_cased [] = []"
| "title_from previous_is_cased (c # cs) =
     (if is_lower c
      then (if previous_is_cased then c else to_upper c) # title_from True cs
      else if is_upper c
      then (if previous_is_cased then to_lower c else c) # title_from True cs
      else c # title_from False cs)"

definition title :: "string \<Rightarrow> string" where
  "title s = title_from False s"

definition get_module_display_name :: "string \<Rightarrow> string" where
  "get_module_display_name module_name =
     (case map_of MODULE_NAME_DISPLAY module_name of
        Some d \<Rightarrow> d
      | None \<Rightarrow> title (replace_str module_name ''_'' '' ''))"

section \<open>The navigation renderer\<close>

text \<open>
  The inner loop body of \<open>convert_tree_to_navigation\<close> for one \<open>(sub_name, sub_data)\<close>:
  what it extends \<open>nav_group["pages"]\<close> by. In \<open>organize_modules.py\<close> the two branches on
  \<open>len(sub_data["pages"]) > 1\<close> extend by the same list (the sub-group built in the
  first one is never appended); \<open>build_api_docs.py\<close> has no branch.
\<close>

definition sub_pages :: "string \<times> tree \<Rightarrow> string list" where
  "sub_pages item =
     (case item of (sub_name, sub_data) \<Rightarrow>
        if pages sub_data \<noteq> []
        then (if length (pages sub_data) > 1
              then sort (pages sub_data)
              else sort (pages sub_data))
        else [])"

definition sub_pages_build :: "string \<times> tree \<Rightarrow> string list" where
  "sub_pages_build item =
     (case item of (sub_name, sub_data) \<Rightarrow>
        if pages sub_data \<noteq> [] then sort (pages sub_data) else [])"

text \<open>
  \<open>nav_group["pages"]\<close> for one category node: its own pages, sorted, then the pages of
  the nodes below it, taken in the order of \<open>sorted(submodule["submodules"].items())\<close>
  (the keys of a dictionary are distinct, so the items are ordered by key).
\<close>

definition nav_group_pages :: "tree \<Rightarrow> string list" where
  "nav_group_pages submodule =
     sort (pages submodule) @
     (if submodules submodule \<noteq> []
      then concat (map sub_pages (sort_key fst (submodules submodule)))
      else [])"

definition nav_group_pages_build :: "tree \<Rightarrow> string list" where
  "nav_group_pages_build submodule =
     sort (pages submodule) @
     (if submodules submodule \<noteq> []
      then concat (map sub_pages_build (sort_key fst (submodules submodule)))
      else [])"

text \<open>The group appended to \<open>navigation\<close> for a category, if it has any page.\<close>

definition nav_group :: "string \<Rightarrow> string list \<Rightarrow> json list" where
  "nav_group module_name ps =
     (if ps \<noteq> []
      then [JObj [(''group'', JStr (get_module_display_name module_name)),
                  (''pages'', JArr (map JStr ps))]]
      else [])"

definition has_camel_page :: "tree \<Rightarrow> bool" where
  "has_camel_page module_tree =
     (''camel'' \<in> set (map (\<lambda>p. last (split_on CHR ''.'' (stem p))) (pages module_tree)))"

text \<open>\<open>convert_tree_to_navigation\<close> of \<open>organize_modules.py\<close>.\<close>

definition convert_tree_to_navigation :: "tree \<Rightarrow> json list" where
  "convert_tree_to_navigation module_tree =
     (if has_camel_page module_tree then [JStr ''reference/camel''] else []) @
     concat (map (\<lambda>module_name.
                    if module_name = ''camel'' then []
                    else (case map_of (submodules module_tree) module_name of
                            None \<Rightarrow> []
                          | Some submodule \<Rightarrow>
                              nav_group module_name (nav_group_pages submodule)))
                 MODULE_ORDER)"

text \<open>\<open>convert_tree_to_navigation\<close> of \<open>build_api_docs.py\<close>.\<close>

definition convert_tree_to_navigation_build :: "tree \<Rightarrow> json list" where
  "convert_tree_to_navigation_build module_tree =
     (if has_camel_page module_tree then [JStr ''reference/camel''] else []) @
     concat (map (\<lambda>module_name.
                    (case map_of (submodules module_tree) module_name of
                       None \<Rightarrow> []
                     | Some submodule \<Rightarrow>
                         nav_group module_name (nav_group_pages_build submodule)))
                 MODULE_ORDER_build)"

section \<open>Pages by node path\<close>

text \<open>
  The pages stored at the node reached from the root along a path of segments (none when
  there is no such node), and the well-formedness of a tree as a nest of dictionaries:
  the keys of every node are distinct.
\<close>

fun pages_at :: "string list \<Rightarrow> tree \<Rightarrow> string list" where
  "pages_at [] t = pages t"
| "pages_at (k # ks) t =
     (case map_of (submodules t) k of None \<Rightarrow> [] | Some c \<Rightarrow> pages_at ks c)"

fun keys_distinct :: "tree \<Rightarrow> bool" where
  "keys_distinct (Node ps subs) =
     (distinct (map fst subs) \<and> list_all (\<lambda>kc. keys_distinct (snd kc)) subs)"

definition module_parts :: "string \<Rightarrow> string list" where
  "module_parts file = split_on CHR ''.'' (stem file)"

definition is_camel :: "string \<Rightarrow> bool" where
  "is_camel file = startswith (stem file) ''camel.''"

definition node_path :: "string \<Rightarrow> string list" where
  "node_path file = tl (butlast (module_parts file))"

definition reference_path :: "string \<Rightarrow> string" where
  "reference_path file = ''reference/'' @ stem file"

lemma split_on_not_Nil: "split_on c s \<noteq> []"
  by (induction s) (auto split: list.splits)

lemma map_of_update_sub:
  "map_of (update_sub k f subs) k' =
     (if k' = k then Some (f (case map_of subs k of None \<Rightarrow> new_module_dict | Some t \<Rightarrow> t))
      else map_of subs k')"
  by (induction subs) auto

lemma keys_update_sub:
  "map fst (update_sub k f subs) =
     (if k \<in> set (map fst subs) then map fst subs else map fst subs @ [k])"
  by (induction subs) force+

lemma pages_at_new: "pages_at p new_module_dict = []"
  by (cases p) (simp_all add: new_module_dict_def)

lemma pages_at_insert_page:
  "pages_at p (insert_page q front r t) =
     (if p = q then (if front then r # pages_at p t else pages_at p t @ [r]) else pages_at p t)"
proof (induction q arbitrary: p t)
  case Nil
  show ?case by (cases t; cases p) simp_all
next
  case (Cons k ks)
  obtain ps subs where t: "t = Node ps subs" by (cases t)
  show ?case
  proof (cases p)
    case Nil
    then show ?thesis by (simp add: t)
  next
    case (Cons k' p')
    then show ?thesis
      by (auto simp: t map_of_update_sub Cons.IH pages_at_new split: option.splits)
  qed
qed

lemma startswith_append: "startswith s p \<Longrightarrow> \<exists>rest. s = p @ rest"
  by (induction s p rule: startswith.induct) auto

lemma camel_parts: 
  assumes "startswith s ''camel.''"
  shows "\<exists>rest. s = ''camel.'' @ rest \<and> split_on CHR ''.'' s = ''camel'' # split_on CHR ''.'' rest"
proof -
  from startswith_append[OF assms] obtain rest where s: "s = ''camel.'' @ rest" by blast
  have "split_on CHR ''.'' s = ''camel'' # split_on CHR ''.'' rest"
    unfolding s using split_on_not_Nil[of "CHR ''.''" rest]
    by (cases "split_on CHR ''.'' rest") (simp_all)
  with s show ?thesis by blast
qed

lemma camel_parts_length: "startswith s ''camel.'' \<Longrightarrow> 2 \<le> length (split_on CHR ''.'' s)"
  using camel_parts[of s] split_on_not_Nil[of "CHR ''.''"]
  by (metis One_nat_def Suc_1 Suc_le_mono length_Cons length_greater_0_conv less_eq_Suc_le)

lemma add_file_eq:
  "add_file file t =
     (if is_camel file
      then insert_page (node_path file)
             (module_parts file ! (length (module_parts file) - 1)
                = module_parts file ! (length (module_parts file) - 2))
             (reference_path file) t
      else t)"
  using camel_parts_length[of "stem file"]
  by (auto simp: add_file_def is_camel_def node_path_def module_parts_def reference_path_def Let_def)

lemma pages_at_add_file:
  "mset (pages_at p (add_file file t)) =
     mset (pages_at p t) + (if is_camel file \<and> node_path file = p then {#reference_path file#} else {#})"
  by (simp add: add_file_eq pages_at_insert_page)

lemma pages_at_fold:
  "mset (pages_at p (fold add_file files t)) =
     mset (pages_at p t)
     + image_mset reference_path (filter_mset (\<lambda>f. is_camel f \<and> node_path f = p) (mset files))"
  by (induction files arbitrary: t) (simp_all add: pages_at_add_file)

lemma pages_at_build:
  "mset (pages_at p (build_module_tree files)) =
     image_mset reference_path (filter_mset (\<lambda>f. is_camel f \<and> node_path f = p) (mset files))"
  by (simp add: build_module_tree_def pages_at_fold pages_at_new)

lemma keys_distinct_new: "keys_distinct new_module_dict"
  by (simp add: new_module_dict_def)

lemma list_all_update_sub:
  "list_all P subs \<Longrightarrow> P (k, f new_module_dict) \<Longrightarrow>
   (\<And>t. (k, t) \<in> set subs \<Longrightarrow> P (k, t) \<Longrightarrow> P (k, f t)) \<Longrightarrow> list_all P (update_sub k f subs)"
  by (induction subs) auto

lemma keys_distinct_insert_page:
  "keys_distinct t \<Longrightarrow> keys_distinct (insert_page q front r t)"
proof (induction q arbitrary: t)
  case Nil
  then show ?case by (cases t) simp
next
  case (Cons k ks)
  obtain ps subs where t: "t = Node ps subs" by (cases t)
  from Cons.prems have d: "distinct (map fst subs)" and a: "list_all (\<lambda>kc. keys_distinct (snd kc)) subs"
    by (simp_all add: t)
  have "list_all (\<lambda>kc. keys_distinct (snd kc)) (update_sub k (insert_page ks front r) subs)"
    by (rule list_all_update_sub[OF a]) (simp_all add: Cons.IH keys_distinct_new)
  moreover have "distinct (map fst (update_sub k (insert_page ks front r) subs))"
    using d by (simp add: keys_update_sub)
  ultimately show ?case by (simp add: t)
qed

lemma keys_distinct_add_file: "keys_distinct t \<Longrightarrow> keys_distinct (add_file file t)"
  by (simp add: add_file_eq keys_distinct_insert_page)

lemma keys_distinct_fold: "keys_distinct t \<Longrightarrow> keys_distinct (fold add_file files t)"
  by (induction files arbitrary: t) (simp_all add: keys_distinct_add_file)

lemma keys_distinct_build: "keys_distinct (build_module_tree files)"
  by (simp add: build_module_tree_def keys_distinct_fold keys_distinct_new)

text \<open>
  The renderers read a tree only through the pages of the category nodes and of the
  nodes one level below them.
\<close>

definition sub_pages_of :: "(string \<times> tree) list \<Rightarrow> string \<Rightarrow> string list" where
  "sub_pages_of subs k = (case map_of subs k of None \<Rightarrow> [] | Some d \<Rightarrow> pages d)"

lemma sub_pages_sort: "sub_pages (k, d) = sort (pages d)"
  by (simp add: sub_pages_def)

lemma sub_pages_build_sort: "sub_pages_build (k, d) = sort (pages d)"
  by (simp add: sub_pages_build_def)

lemma sort_eq_Nil_iff: "sort_key f xs = [] \<longleftrightarrow> xs = []"
  by (metis length_0_conv length_sort)

lemma concat_map_filter_nonempty:
  "concat (map g ks) = concat (map g (filter (\<lambda>k. g k \<noteq> []) ks))"
  by (induction ks) auto

lemma sorted_keys_unique:
  assumes "distinct (map fst subs)"
  shows "map fst (sort_key fst subs) = sorted_list_of_set (set (map fst subs))"
proof (rule sorted_distinct_set_unique)
  show "sorted (map fst (sort_key fst subs))" by (rule sorted_sort_key)
  have "mset (map fst (sort_key fst subs)) = mset (map fst subs)" by simp
  then show "distinct (map fst (sort_key fst subs))"
    using assms by (metis mset_eq_imp_distinct_iff)
  show "sorted (sorted_list_of_set (set (map fst subs)))" by simp
  show "distinct (sorted_list_of_set (set (map fst subs)))" by simp
  show "set (map fst (sort_key fst subs)) = set (sorted_list_of_set (set (map fst subs)))" by simp
qed

lemma filter_sorted_list_of_set:
  assumes "finite A"
  shows "filter P (sorted_list_of_set A) = sorted_list_of_set {k \<in> A. P k}"
proof (rule sorted_distinct_set_unique)
  show "sorted (filter P (sorted_list_of_set A))" by (simp add: sorted_wrt_filter)
  show "distinct (filter P (sorted_list_of_set A))" by simp
  show "sorted (sorted_list_of_set {k \<in> A. P k})" by simp
  show "distinct (sorted_list_of_set {k \<in> A. P k})" by simp
  show "set (filter P (sorted_list_of_set A)) = set (sorted_list_of_set {k \<in> A. P k})"
    using assms by auto
qed

lemma flattened_sub_pages:
  assumes d: "distinct (map fst subs)"
    and sp: "\<And>k t. sp (k, t) = sort (pages t)"
  shows "concat (map sp (sort_key fst subs)) =
         concat (map (\<lambda>k. sort (sub_pages_of subs k))
                     (sorted_list_of_set {k. sub_pages_of subs k \<noteq> []}))"
proof -
  let ?g = "\<lambda>k. sort (sub_pages_of subs k)"
  have 1: "sp kd = ?g (fst kd)" if "kd \<in> set subs" for kd
  proof -
    obtain k t where kd: "kd = (k, t)" by (cases kd)
    from that d have "map_of subs k = Some t" by (simp add: kd)
    then show ?thesis by (simp add: kd sp sub_pages_of_def)
  qed
  have "map sp (sort_key fst subs) = map (\<lambda>kd. ?g (fst kd)) (sort_key fst subs)"
    by (rule map_cong) (simp_all add: 1)
  also have "\<dots> = map ?g (map fst (sort_key fst subs))" by simp
  also have "\<dots> = map ?g (sorted_list_of_set (set (map fst subs)))"
    by (simp only: sorted_keys_unique[OF d])
  finally have 2: "concat (map sp (sort_key fst subs))
      = concat (map ?g (sorted_list_of_set (set (map fst subs))))" by simp
  have "k \<in> set (map fst subs)" if "sub_pages_of subs k \<noteq> []" for k
  proof (cases "map_of subs k")
    case None
    with that show ?thesis by (simp add: sub_pages_of_def)
  next
    case (Some d)
    then show ?thesis by (metis map_of_eq_None_iff option.distinct(1) set_map)
  qed
  then have 3: "{k \<in> set (map fst subs). ?g k \<noteq> []} = {k. sub_pages_of subs k \<noteq> []}"
    by (auto simp: sort_eq_Nil_iff)
  have "concat (map ?g (sorted_list_of_set (set (map fst subs))))
      = concat (map ?g (filter (\<lambda>k. ?g k \<noteq> []) (sorted_list_of_set (set (map fst subs)))))"
    by (rule concat_map_filter_nonempty)
  also have "\<dots> = concat (map ?g (sorted_list_of_set {k \<in> set (map fst subs). ?g k \<noteq> []}))"
    by (simp only: filter_sorted_list_of_set[OF finite_set])
  also have "\<dots> = concat (map ?g (sorted_list_of_set {k. sub_pages_of subs k \<noteq> []}))"
    by (simp only: 3)
  finally show ?thesis using 2 by simp
qed

definition category_pages :: "tree \<Rightarrow> string \<Rightarrow> string list" where
  "category_pages t m =
     sort (pages_at [m] t) @
     concat (map (\<lambda>k. sort (pages_at [m, k] t))
                 (sorted_list_of_set {k. pages_at [m, k] t \<noteq> []}))"

lemma nav_group_pages_flat:
  assumes "distinct (map fst (submodules sub))"
  shows "nav_group_pages sub =
         sort (pages sub) @
         concat (map (\<lambda>k. sort (sub_pages_of (submodules sub) k))
                     (sorted_list_of_set {k. sub_pages_of (submodules sub) k \<noteq> []}))"
proof (cases "submodules sub = []")
  case True
  then show ?thesis by (simp add: nav_group_pages_def sub_pages_of_def)
next
  case False
  then show ?thesis
    using flattened_sub_pages[OF assms, of sub_pages]
    by (simp add: nav_group_pages_def sub_pages_sort)
qed

lemma nav_group_pages_build_eq:
  "nav_group_pages_build sub = nav_group_pages sub"
proof -
  have "sub_pages_build = sub_pages"
    by (rule ext) (auto simp: sub_pages_build_def sub_pages_def)
  then show ?thesis by (simp add: nav_group_pages_build_def nav_group_pages_def)
qed

lemma keys_distinct_sub:
  "keys_distinct t \<Longrightarrow> map_of (submodules t) m = Some sub \<Longrightarrow> keys_distinct sub"
  by (cases t) (auto simp: list_all_iff dest!: map_of_SomeD)

lemma keys_distinct_top: "keys_distinct t \<Longrightarrow> distinct (map fst (submodules t))"
  by (cases t) simp

lemma category_group:
  assumes "keys_distinct t"
  shows "(case map_of (submodules t) m of
            None \<Rightarrow> []
          | Some sub \<Rightarrow> nav_group m (nav_group_pages sub))
         = nav_group m (category_pages t m)"
proof (cases "map_of (submodules t) m")
  case None
  then show ?thesis by (simp add: category_pages_def nav_group_def)
next
  case (Some sub)
  have d: "distinct (map fst (submodules sub))"
    using keys_distinct_top[OF keys_distinct_sub[OF assms Some]] .
  have 1: "pages_at [m, k] t = sub_pages_of (submodules sub) k" for k
    by (simp add: Some sub_pages_of_def split: option.splits)
  have 2: "pages_at [m] t = pages sub"
    by (simp add: Some)
  show ?thesis
    unfolding category_pages_def 1 2 by (simp add: Some nav_group_pages_flat[OF d])
qed

lemma convert_by_category:
  assumes "keys_distinct t"
  shows "convert_tree_to_navigation t =
     (if has_camel_page t then [JStr ''reference/camel''] else []) @
     concat (map (\<lambda>m. if m = ''camel'' then [] else nav_group m (category_pages t m)) MODULE_ORDER)"
proof -
  have "(\<lambda>module_name. if module_name = ''camel'' then []
            else (case map_of (submodules t) module_name of
                    None \<Rightarrow> []
                  | Some submodule \<Rightarrow> nav_group module_name (nav_group_pages submodule)))
      = (\<lambda>m. if m = ''camel'' then [] else nav_group m (category_pages t m))"
    by (rule ext) (simp only: category_group[OF assms])
  then show ?thesis
    unfolding convert_tree_to_navigation_def by (rule arg_cong)
qed

lemma convert_build_by_category:
  assumes "keys_distinct t"
  shows "convert_tree_to_navigation_build t =
     (if has_camel_page t then [JStr ''reference/camel''] else []) @
     concat (map (\<lambda>m. nav_group m (category_pages t m)) MODULE_ORDER_build)"
proof -
  have "(\<lambda>module_name. (case map_of (submodules t) module_name of
                    None \<Rightarrow> []
                  | Some submodule \<Rightarrow> nav_group module_name (nav_group_pages_build submodule)))
      = (\<lambda>m. nav_group m (category_pages t m))"
    by (rule ext) (simp only: nav_group_pages_build_eq category_group[OF assms])
  then show ?thesis
    unfolding convert_tree_to_navigation_build_def by (rule arg_cong)
qed

lemma category_pages_cong:
  assumes "\<And>p. mset (pages_at p t) = mset (pages_at p t')"
  shows "category_pages t m = category_pages t' m"
proof -
  have s: "sort (pages_at p t) = sort (pages_at p t')" for p
    using assms[of p] by (metis sorted_list_of_multiset_mset)
  have n: "(pages_at p t \<noteq> []) = (pages_at p t' \<noteq> [])" for p
    using assms[of p] by (metis mset_zero_iff)
  show ?thesis unfolding category_pages_def by (simp only: s n)
qed

lemma has_camel_page_cong:
  assumes "\<And>p. mset (pages_at p t) = mset (pages_at p t')"
  shows "has_camel_page t = has_camel_page t'"
proof -
  have "mset (pages t) = mset (pages t')"
    using assms[of "[]"] by simp
  then have "set (pages t) = set (pages t')"
    by (rule mset_eq_setD)
  then show ?thesis
    unfolding has_camel_page_def set_map by (rule arg_cong)
qed

lemma convert_cong:
  assumes "keys_distinct t" "keys_distinct t'"
    and "\<And>p. mset (pages_at p t) = mset (pages_at p t')"
  shows "convert_tree_to_navigation t = convert_tree_to_navigation t'"
    and "convert_tree_to_navigation_build t = convert_tree_to_navigation_build t'"
proof -
  note c = category_pages_cong[OF assms(3)] and h = has_camel_page_cong[OF assms(3)]
  show "convert_tree_to_navigation t = convert_tree_to_navigation t'"
    unfolding convert_by_category[OF assms(1)] convert_by_category[OF assms(2)]
    by (simp only: c h)
  show "convert_tree_to_navigation_build t = convert_tree_to_navigation_build t'"
    unfolding convert_build_by_category[OF assms(1)] convert_build_by_category[OF assms(2)]
    by (simp only: c h)
qed

section \<open>The root package's own page\<close>

text \<open>
  C1. An identifier set that holds the single-segment identifier \<open>camel\<close> (the file
  \<open>camel.mdx\<close>) should have it appended to the root node's pages and rendered first, as
  the bare page \<open>reference/camel\<close>. The loop of \<open>build_module_tree\<close> skips every stem
  that does not start with \<open>camel.\<close> (with the dot) before it reaches its own branch
  for \<open>len(parts) == 1\<close>: the file \<open>camel.mdx\<close> leaves the tree empty, and neither
  renderer emits \<open>reference/camel\<close> for it.
\<close>

theorem camel_root_page_skipped:
  "build_module_tree [''camel.mdx''] = Node [] []
   \<and> convert_tree_to_navigation (build_module_tree [''camel.mdx'']) = []
   \<and> convert_tree_to_navigation_build (build_module_tree [''camel.mdx'']) = []
   \<and> convert_tree_to_navigation
         (build_module_tree [''camel.mdx'', ''camel.agents.chat_agent.mdx''])
       = [JObj [(''group'', JStr ''Agents''),
                (''pages'', JArr [JStr ''reference/camel.agents.chat_agent''])]]"
  by code_simp

section \<open>Directory pages\<close>

text \<open>
  C3. A directory page (pattern \<open>a.b.b\<close>) should be rendered before all its sibling
  pages. The builder does put \<open>reference/camel.agents.agents\<close> at position 0 of the
  node's pages, but both renderers pass the pages through \<open>sorted\<close>, and
  \<open>reference/camel.agents._utils\<close> sorts before it: the directory page comes out
  second.
\<close>

theorem directory_page_not_first:
  "pages (the (map_of (submodules (build_module_tree
             [''camel.agents._utils.mdx'', ''camel.agents.agents.mdx''])) ''agents''))
     = [''reference/camel.agents.agents'', ''reference/camel.agents._utils'']
   \<and> convert_tree_to_navigation
         (build_module_tree [''camel.agents._utils.mdx'', ''camel.agents.agents.mdx''])
     = [JObj [(''group'', JStr ''Agents''),
              (''pages'', JArr [JStr ''reference/camel.agents._utils'',
                                JStr ''reference/camel.agents.agents''])]]
   \<and> convert_tree_to_navigation_build
         (build_module_tree [''camel.agents._utils.mdx'', ''camel.agents.agents.mdx''])
     = [JObj [(''group'', JStr ''Agents''),
              (''pages'', JArr [JStr ''reference/camel.agents._utils'',
                                JStr ''reference/camel.agents.agents''])]]"
  by code_simp

section \<open>Determinism of the rendering\<close>

text \<open>
  C5. Rendering is deterministic: building the tree and rendering it gives the same
  navigation for every order in which the same files are supplied (any two lists with
  the same elements, counted with multiplicity), for both renderers. That two runs on
  one list agree is the functions being functions.
\<close>

theorem render_deterministic:
  assumes "mset files = mset files'"
  shows "convert_tree_to_navigation (build_module_tree files)
           = convert_tree_to_navigation (build_module_tree files')
       \<and> convert_tree_to_navigation_build (build_module_tree files)
           = convert_tree_to_navigation_build (build_module_tree files')"
proof -
  have "mset (pages_at p (build_module_tree files))
      = mset (pages_at p (build_module_tree files'))" for p
    by (simp add: pages_at_build assms)
  then show ?thesis
    using convert_cong[OF keys_distinct_build keys_distinct_build] by blast
qed

theorem render_deterministic_witness:
  "mset [''camel.agents.chat_agent.mdx'', ''camel.agents.agents.mdx'', ''camel.types.enums.mdx'']
     = mset [''camel.types.enums.mdx'', ''camel.agents.agents.mdx'', ''camel.agents.chat_agent.mdx'']
   \<and> convert_tree_to_navigation (build_module_tree
         [''camel.agents.chat_agent.mdx'', ''camel.agents.agents.mdx'', ''camel.types.enums.mdx''])
     = convert_tree_to_navigation (build_module_tree
         [''camel.types.enums.mdx'', ''camel.agents.agents.mdx'', ''camel.agents.chat_agent.mdx''])
   \<and> convert_tree_to_navigation_build (build_module_tree
         [''camel.agents.chat_agent.mdx'', ''camel.agents.agents.mdx'', ''camel.types.enums.mdx''])
     = convert_tree_to_navigation_build (build_module_tree
         [''camel.types.enums.mdx'', ''camel.agents.agents.mdx'', ''camel.agents.chat_agent.mdx''])"
proof -
  have h: "mset [''camel.agents.chat_agent.mdx'', ''camel.agents.agents.mdx'', ''camel.types.enums.mdx'']
     = mset [''camel.types.enums.mdx'', ''camel.agents.agents.mdx'', ''camel.agents.chat_agent.mdx'']"
    by (simp add: add.commute add.left_commute)
  show ?thesis using h render_deterministic[OF h] by blast
qed

end
